theory Spec2Isabelle
  imports Complex_Main "HOL-Library.Word"
begin

section \<open>Data model\<close>

text \<open>
  Bytes are 8-bit words. A CAN message, as both programs use it, is an arbitration
  identifier together with its data bytes; the length of a message is the number of its
  data bytes (the library takes the data length code from the data). The constructor
  performs no check on the number of data bytes, and every message object is truthy.
\<close>

type_synonym byte = "8 word"

datatype error = IndexError | StructError

record can_message =
  arbitration_id :: nat
  data :: "byte list"

definition Message :: "nat \<Rightarrow> byte list \<Rightarrow> can_message" where
  "Message arb_id bs = \<lparr>arbitration_id = arb_id, data = bs\<rparr>"

text \<open>Indexing \<open>msg.data[i]\<close> raises \<open>IndexError\<close> beyond the end of the data.\<close>

definition data_at :: "can_message \<Rightarrow> nat \<Rightarrow> error + byte" where
  "data_at msg i = (if i < length (data msg) then Inr (data msg ! i) else Inl IndexError)"

section \<open>Frame codec\<close>

text \<open>
  \<open>struct.pack('<I B 8s', arb_id, dlc, payload)\<close>: four bytes of the identifier, least
  significant first, one byte of length, and the payload cut or filled with zero bytes to
  eight bytes. Packing raises when the identifier does not fit 32 bits or the length does
  not fit 8 bits.
\<close>

definition pack_u32_le :: "nat \<Rightarrow> byte list" where
  "pack_u32_le n =
     [of_nat n, of_nat (n div 256), of_nat (n div 65536), of_nat (n div 16777216)]"

definition unpack_u32_le :: "byte list \<Rightarrow> nat" where
  "unpack_u32_le bs =
     unat (bs ! 0) + 256 * unat (bs ! 1) + 65536 * unat (bs ! 2) + 16777216 * unat (bs ! 3)"

definition ljust :: "byte list \<Rightarrow> nat \<Rightarrow> byte \<Rightarrow> byte list" where
  "ljust bs n fill = bs @ replicate (n - length bs) fill"

definition pack_8s :: "byte list \<Rightarrow> byte list" where
  "pack_8s bs = take 8 bs @ replicate (8 - length bs) 0"

definition struct_pack :: "nat \<Rightarrow> nat \<Rightarrow> byte list \<Rightarrow> error + byte list" where
  "struct_pack arb_id dlc payload =
     (if arb_id < 2 ^ 32 \<and> dlc < 256
      then Inr (pack_u32_le arb_id @ [of_nat dlc] @ pack_8s payload)
      else Inl StructError)"

definition struct_unpack :: "byte list \<Rightarrow> error + (nat \<times> nat \<times> byte list)" where
  "struct_unpack bs =
     (if length bs = 13
      then Inr (unpack_u32_le (take 4 bs), unat (bs ! 4), drop 5 bs)
      else Inl StructError)"

text \<open>
  The encoding both programs apply before \<open>sendall\<close> (in \<open>broadcast_can_message\<close>,
  \<open>send_request\<close>, \<open>read_dtcs\<close> and \<open>clear_dtcs\<close>).
\<close>

definition encode_message :: "can_message \<Rightarrow> error + byte list" where
  "encode_message msg =
     struct_pack (arbitration_id msg) (length (data msg)) (ljust (data msg) 8 0)"

text \<open>
  The decoding both receive loops apply to a chunk of exactly 13 bytes: unpack, then keep
  the first \<open>dlc\<close> bytes of the payload.
\<close>

definition decode_message :: "byte list \<Rightarrow> error + can_message" where
  "decode_message bs =
     (case struct_unpack bs of
        Inl e \<Rightarrow> Inl e
      | Inr (arb_id, dlc, msg_data) \<Rightarrow> Inr (Message arb_id (take dlc msg_data)))"

section \<open>Receive loops\<close>

text \<open>
  What one \<open>recv(13)\<close> on a socket gives: a chunk of bytes (of any length up to 13, the
  empty chunk when the peer has closed) or a raised socket error. A receive loop is run
  over the sequence of results its socket delivers; the first component of its result
  tells whether the loop is still running once that sequence is used up.
\<close>

datatype recv_result = Chunk "byte list" | SocketError

text \<open>
  The reader's \<open>_tcp_receiver\<close>: a chunk of exactly 13 bytes is decoded and appended to
  the response queue, any exception leaves the loop, and a chunk of another length falls
  through the \<open>if\<close> to the next iteration.
\<close>

fun tcp_receiver :: "recv_result list \<Rightarrow> can_message list \<Rightarrow> bool \<times> can_message list" where
  "tcp_receiver [] queue = (True, queue)"
| "tcp_receiver (SocketError # later) queue = (False, queue)"
| "tcp_receiver (Chunk bs # later) queue =
     (if length bs = 13
      then (case decode_message bs of
              Inl e \<Rightarrow> (False, queue)
            | Inr msg \<Rightarrow> tcp_receiver later (queue @ [msg]))
      else tcp_receiver later queue)"

section \<open>ECU simulator\<close>

type_synonym dtc = "byte \<times> byte"

text \<open>
  The state of the simulator: the global list of active codes, the registry of connected
  clients (sockets, named by numbers), the queue of requests received from clients, and
  the frames sent on the local bus so far.
\<close>

record ecu =
  active_dtcs :: "dtc list"
  client_sockets :: "nat list"
  incoming_requests :: "can_message list"
  bus_sent :: "can_message list"

definition bus_send :: "can_message \<Rightarrow> ecu \<Rightarrow> ecu" where
  "bus_send msg s = s\<lparr>bus_sent := bus_sent s @ [msg]\<rparr>"

text \<open>
  \<open>receive_from_client\<close>: the same loop as the reader's, filling the request queue; once
  the loop has been left, the client is removed from the registry if it is still there.
\<close>

fun receive_from_client :: "recv_result list \<Rightarrow> nat \<Rightarrow> ecu \<Rightarrow> bool \<times> ecu" where
  "receive_from_client [] client s = (True, s)"
| "receive_from_client (SocketError # later) client s =
     (False, s\<lparr>client_sockets := remove1 client (client_sockets s)\<rparr>)"
| "receive_from_client (Chunk bs # later) client s =
     (if length bs = 13
      then (case decode_message bs of
              Inl e \<Rightarrow> (False, s\<lparr>client_sockets := remove1 client (client_sockets s)\<rparr>)
            | Inr msg \<Rightarrow>
                receive_from_client later client
                  (s\<lparr>incoming_requests := incoming_requests s @ [msg]\<rparr>))
      else receive_from_client later client s)"

text \<open>
  \<open>broadcast_can_message\<close>: the message is packed once and written to every registered
  client; the clients whose write fails are removed from the registry. The result is the
  packed frame and the registry afterwards.
\<close>

definition broadcast_can_message ::
  "(nat \<Rightarrow> bool) \<Rightarrow> can_message \<Rightarrow> ecu \<Rightarrow> error + (byte list \<times> ecu)" where
  "broadcast_can_message sendall_ok msg s =
     (case encode_message msg of
        Inl e \<Rightarrow> Inl e
      | Inr packed \<Rightarrow>
          Inr (packed, s\<lparr>client_sockets := filter sendall_ok (client_sockets s)\<rparr>))"

definition DTC_POOL :: "dtc list" where
  "DTC_POOL =
     [(0x01, 0x33), (0x01, 0x71), (0x01, 0x74), (0x03, 0x00),
      (0x03, 0x01), (0x04, 0x20), (0x04, 0x40), (0x05, 0x62)]"

text \<open>
  Random draws are parameters of the model: each call of \<open>randint\<close> or \<open>choice\<close> takes
  a natural number standing for the generator's entropy and maps it into the range of the
  call, so that every value of the range can be drawn and no other. The distribution of
  the draws is not represented.
\<close>

definition randint :: "int \<Rightarrow> int \<Rightarrow> nat \<Rightarrow> int" where
  "randint lo hi seed = lo + int (seed mod nat (hi - lo + 1))"

definition choice :: "'a list \<Rightarrow> nat \<Rightarrow> 'a" where
  "choice xs seed = xs ! (seed mod length xs)"

text \<open>
  Service 1. The two entropy arguments feed the first and the second \<open>randint\<close> of the
  chosen branch. Reading \<open>msg.data[2]\<close> raises on a request shorter than three bytes.
\<close>

definition service1_response :: "nat \<Rightarrow> nat \<Rightarrow> byte \<Rightarrow> can_message option" where
  "service1_response r1 r2 pid =
     (if pid = 0x00 then Some (Message 0x7e8 [0x06, 0x41, 0x00, 0xBF, 0xDF, 0xB9, 0x91])
      else if pid = 0x04 then Some (Message 0x7e8 [0x03, 0x41, 0x04, 0x20])
      else if pid = 0x05 then
        Some (Message 0x7e8 [0x03, 0x41, 0x05, of_int (randint (88 + 40) (95 + 40) r1)])
      else if pid = 0x0B then Some (Message 0x7e8 [0x04, 0x41, 0x0B, of_int (randint 10 40 r1)])
      else if pid = 0x0C then
        Some (Message 0x7e8 [0x04, 0x41, 0x0C, of_int (randint 18 70 r1), of_int (randint 0 255 r2)])
      else if pid = 0x0D then Some (Message 0x7e8 [0x03, 0x41, 0x0D, of_int (randint 40 60 r1)])
      else if pid = 0x0F then Some (Message 0x7e8 [0x03, 0x41, 0x0F, of_int (randint 60 64 r1)])
      else if pid = 0x10 then Some (Message 0x7e8 [0x04, 0x41, 0x10, 0x00, 0xFA])
      else if pid = 0x11 then Some (Message 0x7e8 [0x03, 0x41, 0x11, of_int (randint 20 60 r1)])
      else if pid = 0x33 then Some (Message 0x7e8 [0x03, 0x41, 0x33, of_int (randint 20 60 r1)])
      else None)"

definition service1 ::
  "nat \<Rightarrow> nat \<Rightarrow> can_message \<Rightarrow> ecu \<Rightarrow> error + (can_message option \<times> ecu)" where
  "service1 r1 r2 msg s =
     (case data_at msg 2 of
        Inl e \<Rightarrow> Inl e
      | Inr pid \<Rightarrow>
          (case service1_response r1 r2 pid of
             None \<Rightarrow> Inr (None, s)
           | Some response \<Rightarrow> Inr (Some response, bus_send response s)))"

text \<open>Service 3. The padding loop appends zero bytes while the list is shorter than 8.\<close>

function pad_zeros :: "byte list \<Rightarrow> byte list" where
  "pad_zeros dtc_data = (if length dtc_data < 8 then pad_zeros (dtc_data @ [0x00]) else dtc_data)"
  by pat_completeness auto
termination
  by (relation "measure (\<lambda>dtc_data. 8 - length dtc_data)") auto

declare pad_zeros.simps [simp del]

definition service3 :: "can_message \<Rightarrow> ecu \<Rightarrow> can_message \<times> ecu" where
  "service3 msg s =
     (let response =
        (if length (active_dtcs s) = 0
         then Message 0x7e8 [0x01, 0x43, 0x00, 0x00, 0x00, 0x00, 0x00, 0x00]
         else
           (let dtc_data = pad_zeros (foldl (\<lambda>acc dtc. acc @ [fst dtc, snd dtc]) [0x43]
                                        (take 3 (active_dtcs s)))
            in Message 0x7e8 (of_nat (length dtc_data - 1) # dtc_data)))
      in (response, bus_send response s))"

definition service4 :: "can_message \<Rightarrow> ecu \<Rightarrow> can_message \<times> ecu" where
  "service4 msg s =
     (let s' = s\<lparr>active_dtcs := []\<rparr>;
          response = Message 0x7e8 [0x01, 0x44, 0x00, 0x00, 0x00, 0x00, 0x00, 0x00]
      in (response, bus_send response s'))"

text \<open>
  One iteration of \<open>random_dtc_generator\<close> after its sleep. The two booleans are the
  outcomes of the tests \<open>random() < 0.7\<close> and \<open>random() < 0.1\<close>; the two numbers are
  the entropy of \<open>choice\<close> and of the \<open>randint\<close> that picks the index to pop.
\<close>

definition pop_at :: "'a list \<Rightarrow> nat \<Rightarrow> 'a list" where
  "pop_at xs i = take i xs @ drop (Suc i) xs"

definition generator_tick :: "bool \<Rightarrow> nat \<Rightarrow> bool \<Rightarrow> nat \<Rightarrow> dtc list \<Rightarrow> dtc list" where
  "generator_tick add_roll pick remove_roll idx dtcs =
     (let dtcs1 =
        (if add_roll then
           (if length dtcs < 5 then
              (let new_dtc = choice DTC_POOL pick
               in if new_dtc \<notin> set dtcs then dtcs @ [new_dtc] else dtcs)
            else dtcs)
         else dtcs)
      in if dtcs1 \<noteq> [] \<and> remove_roll
         then pop_at dtcs1 (nat (randint 0 (int (length dtcs1) - 1) idx))
         else dtcs1)"

text \<open>
  The body of the service loop of \<open>receive_all\<close> for one request taken from the client
  queue: the service is chosen by the identifier and byte 1, and a response, when there
  is one, is broadcast. The result is the packed frame written to the clients, if any.
  A request from a client that is no service request is dropped without a word.
\<close>

definition respond ::
  "(nat \<Rightarrow> bool) \<Rightarrow> can_message option \<Rightarrow> ecu \<Rightarrow> error + (byte list option \<times> ecu)" where
  "respond sendall_ok response s =
     (case response of
        None \<Rightarrow> Inr (None, s)
      | Some r \<Rightarrow>
          (case broadcast_can_message sendall_ok r s of
             Inl e \<Rightarrow> Inl e
           | Inr (packed, s') \<Rightarrow> Inr (Some packed, s')))"

definition process_request ::
  "(nat \<Rightarrow> bool) \<Rightarrow> nat \<Rightarrow> nat \<Rightarrow> can_message \<Rightarrow> ecu \<Rightarrow> error + (byte list option \<times> ecu)" where
  "process_request sendall_ok r1 r2 msg s =
     (if arbitration_id msg \<noteq> 0x7df then Inr (None, s)
      else
        (case data_at msg 1 of
           Inl e \<Rightarrow> Inl e
         | Inr service \<Rightarrow>
             if service = 0x01 then
               (case service1 r1 r2 msg s of
                  Inl e \<Rightarrow> Inl e
                | Inr (response, s') \<Rightarrow> respond sendall_ok response s')
             else if service = 0x03 then
               (case service3 msg s of (response, s') \<Rightarrow> respond sendall_ok (Some response) s')
             else if service = 0x04 then
               (case service4 msg s of (response, s') \<Rightarrow> respond sendall_ok (Some response) s')
             else Inr (None, s)))"

text \<open>
  The events that change the set of active codes: a tick of the generator and the clear
  service.
\<close>

datatype dtc_event = GeneratorTick bool nat bool nat | ClearCodes can_message

fun apply_event :: "ecu \<Rightarrow> dtc_event \<Rightarrow> ecu" where
  "apply_event s (GeneratorTick add_roll pick remove_roll idx) =
     s\<lparr>active_dtcs := generator_tick add_roll pick remove_roll idx (active_dtcs s)\<rparr>"
| "apply_event s (ClearCodes msg) = snd (service4 msg s)"

definition ecu_start :: ecu where
  "ecu_start = \<lparr>active_dtcs = [], client_sockets = [], incoming_requests = [], bus_sent = []\<rparr>"



section \<open>OBD reader\<close>

text \<open>
  The state of the reader: the queue its receive loop fills, and the chunks it has
  written to its socket.
\<close>

record reader =
  response_queue :: "can_message list"
  tcp_out :: "byte list list"

definition REQUEST_ID :: nat where "REQUEST_ID = 0x7DF"
definition RESPONSE_ID :: nat where "RESPONSE_ID = 0x7E8"
definition SERVICE_CURRENT_DATA :: byte where "SERVICE_CURRENT_DATA = 0x01"
definition SERVICE_READ_DTCS :: byte where "SERVICE_READ_DTCS = 0x03"
definition SERVICE_CLEAR_DTCS :: byte where "SERVICE_CLEAR_DTCS = 0x04"

text \<open>
  \<open>send_request\<close>: the request is packed and written to the socket; a failing write is
  swallowed. The boolean tells whether \<open>sendall\<close> succeeds.
\<close>

definition send_request :: "bool \<Rightarrow> byte \<Rightarrow> byte \<Rightarrow> reader \<Rightarrow> error + reader" where
  "send_request sendall_ok service pid r =
     (let msg = Message REQUEST_ID [0x02, service, pid, 0x00, 0x00, 0x00, 0x00, 0x00]
      in case encode_message msg of
           Inl e \<Rightarrow> Inl e
         | Inr packed_data \<Rightarrow>
             Inr (if sendall_ok then r\<lparr>tcp_out := tcp_out r @ [packed_data]\<rparr> else r))"

text \<open>
  \<open>wait_response\<close>. The loop polls every 10 ms until the timeout; the first argument
  lists, for each poll that happens before the timeout, the messages the receive loop has
  appended to the queue since the poll before. A poll on a non-empty queue pops its
  head, and returns it when it carries the response identifier.
\<close>

fun wait_response ::
  "can_message list list \<Rightarrow> can_message list \<Rightarrow> can_message option \<times> can_message list" where
  "wait_response [] queue = (None, queue)"
| "wait_response (arrived # later) queue =
     (case queue @ arrived of
        [] \<Rightarrow> wait_response later []
      | msg # rest \<Rightarrow>
          if arbitration_id msg = RESPONSE_ID then (Some msg, rest)
          else wait_response later rest)"

text \<open>
  \<open>read_rpm\<close>. The quotient \<open>((A * 256) + B) / 4\<close> is Python's true division; its
  operands are below \<open>2 ^ 16\<close> and the divisor is a power of two, so the floating-point
  result is exact and is given here as a rational number.
\<close>

definition read_rpm ::
  "bool \<Rightarrow> can_message list list \<Rightarrow> reader \<Rightarrow> error + (rat option \<times> reader)" where
  "read_rpm sendall_ok arrivals r =
     (case send_request sendall_ok SERVICE_CURRENT_DATA 0x0C r of
        Inl e \<Rightarrow> Inl e
      | Inr r1 \<Rightarrow>
          (case wait_response arrivals (response_queue r1) of
             (None, queue) \<Rightarrow> Inr (None, r1\<lparr>response_queue := queue\<rparr>)
           | (Some response, queue) \<Rightarrow>
               (let r2 = r1\<lparr>response_queue := queue\<rparr>
                in case data_at response 1 of
                     Inl e \<Rightarrow> Inl e
                   | Inr b1 \<Rightarrow>
                       if b1 \<noteq> 0x41 then Inr (None, r2)
                       else
                         (case data_at response 2 of
                            Inl e \<Rightarrow> Inl e
                          | Inr b2 \<Rightarrow>
                              if b2 \<noteq> 0x0C then Inr (None, r2)
                              else
                                (case data_at response 3 of
                                   Inl e \<Rightarrow> Inl e
                                 | Inr a \<Rightarrow>
                                     (case data_at response 4 of
                                        Inl e \<Rightarrow> Inl e
                                      | Inr b \<Rightarrow>
                                          Inr (Some (of_nat ((unat a * 256) + unat b) / 4),
                                               r2)))))))"

text \<open>The text form of a code: \<open>P\<close> and two upper-case hexadecimal digits per byte.\<close>

definition hex_digit :: "nat \<Rightarrow> char" where
  "hex_digit d = ''0123456789ABCDEF'' ! d"

definition hex02X :: "byte \<Rightarrow> string" where
  "hex02X b = [hex_digit (unat b div 16), hex_digit (unat b mod 16)]"

definition format_dtc :: "byte \<Rightarrow> byte \<Rightarrow> string" where
  "format_dtc dtc_high dtc_low = ''P'' @ hex02X dtc_high @ hex02X dtc_low"

text \<open>
  \<open>range(2, stop, 2)\<close>, and the parsing loop of \<open>read_dtcs\<close> over
  \<open>range(2, len(response.data) - 1, 2)\<close>: every index \<open>i\<close> it visits has \<open>i + 1\<close>
  inside the data, so neither read can raise.
\<close>

definition range_from2_step2 :: "int \<Rightarrow> nat list" where
  "range_from2_step2 stop = filter even [2 ..< nat stop]"

definition parse_dtcs :: "byte list \<Rightarrow> string list" where
  "parse_dtcs d =
     foldl (\<lambda>dtcs i. if d ! i \<noteq> 0x00 then dtcs @ [format_dtc (d ! i) (d ! (i + 1))] else dtcs)
       [] (range_from2_step2 (int (length d) - 1))"

definition read_dtcs ::
  "bool \<Rightarrow> can_message list list \<Rightarrow> reader \<Rightarrow> error + (string list \<times> reader)" where
  "read_dtcs sendall_ok arrivals r =
     (let msg = Message REQUEST_ID [0x01, SERVICE_READ_DTCS, 0x00, 0x00, 0x00, 0x00, 0x00, 0x00]
      in case encode_message msg of
           Inl e \<Rightarrow> Inl e
         | Inr packed_data \<Rightarrow>
             if \<not> sendall_ok then Inr ([], r)
             else
               (let r1 = r\<lparr>tcp_out := tcp_out r @ [packed_data]\<rparr>
                in case wait_response arrivals (response_queue r1) of
                     (None, queue) \<Rightarrow> Inr ([], r1\<lparr>response_queue := queue\<rparr>)
                   | (Some response, queue) \<Rightarrow>
                       (case data_at response 1 of
                          Inl e \<Rightarrow> Inl e
                        | Inr b1 \<Rightarrow>
                            if b1 = 0x43
                            then Inr (parse_dtcs (data response), r1\<lparr>response_queue := queue\<rparr>)
                            else Inr ([], r1\<lparr>response_queue := queue\<rparr>))))"

section \<open>One query between reader and ECU\<close>

text \<open>
  The part of the service loop of \<open>receive_all\<close> that serves the clients: under the
  lock, the oldest queued request, if there is one, is popped and processed.
\<close>

definition service_loop_step ::
  "(nat \<Rightarrow> bool) \<Rightarrow> nat \<Rightarrow> nat \<Rightarrow> ecu \<Rightarrow> error + (byte list option \<times> ecu)" where
  "service_loop_step sendall_ok r1 r2 s =
     (case incoming_requests s of
        [] \<Rightarrow> Inr (None, s)
      | msg # rest \<Rightarrow> process_request sendall_ok r1 r2 msg (s\<lparr>incoming_requests := rest\<rparr>))"

text \<open>
  The path of one query through the functions above, with the ECU as the reader's only
  peer: \<open>send_request\<close> writes the packed request to the socket, the ECU's
  \<open>receive_from_client\<close> reads it in one chunk and queues it, the service loop serves
  the queue once, what it broadcasts is read by the reader's \<open>_tcp_receiver\<close> and is in
  the response queue at the first poll of \<open>wait_response\<close>, which polls once and then
  \<open>polls\<close> times more before its timeout. The result is what \<open>wait_response\<close>
  returns, with the states of the reader and of the ECU afterwards.
\<close>

definition query_round ::
  "nat \<Rightarrow> nat \<Rightarrow> nat \<Rightarrow> nat \<Rightarrow> byte \<Rightarrow> byte \<Rightarrow> reader \<Rightarrow> ecu
     \<Rightarrow> error + (can_message option \<times> reader \<times> ecu)" where
  "query_round client r1 r2 polls service pid r s =
     (case send_request True service pid r of
        Inl e \<Rightarrow> Inl e
      | Inr r' \<Rightarrow>
          (let request = last (tcp_out r');
               s1 = snd (receive_from_client [Chunk request] client s)
           in case service_loop_step (\<lambda>c. True) r1 r2 s1 of
                Inl e \<Rightarrow> Inl e
              | Inr (sent, s2) \<Rightarrow>
                  (let arrived = snd (tcp_receiver
                                       (case sent of None \<Rightarrow> [] | Some packed \<Rightarrow> [Chunk packed]) [])
                   in case wait_response (arrived # replicate polls []) (response_queue r') of
                        (res, queue') \<Rightarrow> Inr (res, r'\<lparr>response_queue := queue'\<rparr>, s2))))"

section \<open>Properties of the codec\<close>

lemma unat_byte_of_nat: "unat (of_nat k :: byte) = k mod 256"
  by (simp add: unat_of_nat)

lemma base256_digits:
  fixes n :: nat
  assumes "n < 2 ^ 32"
  shows "n mod 256 + 256 * (n div 256 mod 256) + 65536 * (n div 65536 mod 256)
        + 16777216 * (n div 16777216 mod 256) = n"
proof -
  have d2: "n div 65536 = n div 256 div 256" by (simp add: div_mult2_eq)
  have d3: "n div 16777216 = n div 256 div 256 div 256" by (simp add: div_mult2_eq)
  have top: "n div 256 div 256 div 256 < 256"
    using assms by (simp add: div_mult2_eq less_mult_imp_div_less)
  define a where "a = n div 256"
  define c where "c = a div 256"
  define d where "d = c div 256"
  have 1: "n = n mod 256 + 256 * a" by (simp add: a_def)
  have 2: "a = a mod 256 + 256 * c" by (simp add: c_def)
  have 3: "c = c mod 256 + 256 * d" by (simp add: d_def)
  have 4: "d mod 256 = d" using top by (simp add: a_def c_def d_def)
  show ?thesis
    unfolding d2 d3 a_def[symmetric] c_def[symmetric] d_def[symmetric] 4
    using 1 2 3 by linarith
qed

lemma unpack_pack_u32_le:
  assumes "n < 2 ^ 32"
  shows "unpack_u32_le (pack_u32_le n) = n"
proof -
  have "n div 16777216 < 256" using assms by (simp add: less_mult_imp_div_less)
  then have "n div 16777216 mod 256 = n div 16777216" by simp
  with base256_digits[OF assms] show ?thesis
    by (simp add: unpack_u32_le_def pack_u32_le_def unat_byte_of_nat)
qed

lemma length_pack_u32_le: "length (pack_u32_le n) = 4"
  by (simp add: pack_u32_le_def)

lemma length_pack_8s: "length (pack_8s bs) = 8"
  by (simp add: pack_8s_def)

lemma pack_8s_short: "length bs \<le> 8 \<Longrightarrow> pack_8s bs = bs @ replicate (8 - length bs) 0"
  by (simp add: pack_8s_def)

lemma encode_message_layout:
  assumes "arbitration_id m < 2 ^ 32" and "length (data m) \<le> 8"
  shows "encode_message m =
     Inr (pack_u32_le (arbitration_id m) @ [of_nat (length (data m))] @
          data m @ replicate (8 - length (data m)) 0)"
  using assms by (simp add: encode_message_def struct_pack_def ljust_def pack_8s_def)

lemma decode_layout:
  assumes "n < 2 ^ 32" and "length bs \<le> 8"
  shows "decode_message (pack_u32_le n @ [of_nat (length bs)] @ bs @ replicate (8 - length bs) 0)
     = Inr (Message n bs)"
proof -
  let ?w = "pack_u32_le n @ [of_nat (length bs)] @ bs @ replicate (8 - length bs) 0"
  have len: "length ?w = 13" using assms by (simp add: length_pack_u32_le)
  have t4: "take 4 ?w = pack_u32_le n" by (simp add: length_pack_u32_le)
  have at4: "?w ! 4 = (of_nat (length bs) :: byte)"
    by (simp add: nth_append length_pack_u32_le)
  have d5: "drop 5 ?w = bs @ replicate (8 - length bs) 0"
    by (simp add: length_pack_u32_le)
  have u: "unat (of_nat (length bs) :: byte) = length bs"
    using assms by (simp add: unat_of_nat)
  show ?thesis
    unfolding decode_message_def struct_unpack_def
    using assms by (simp only: len t4 at4 d5 u unpack_pack_u32_le) simp
qed

text \<open>
  Claim C1 (frame codec round trip). For every frame whose identifier is below \<open>2 ^ 32\<close>
  and whose payload has at most 8 bytes (the length of the frame being the number of its
  payload bytes), encoding succeeds and gives 13 bytes: the identifier in 4 bytes, least
  significant first, the length in 1 byte, and the payload filled with zero bytes to 8
  bytes. Decoding these 13 bytes gives a frame with the same identifier, the same length
  and the same payload bytes.
\<close>

theorem codec_round_trip:
  assumes "arb_id < 2 ^ 32" and "length payload \<le> 8"
  shows "\<exists>w. encode_message (Message arb_id payload) = Inr w
           \<and> length w = 13
           \<and> w = pack_u32_le arb_id @ [of_nat (length payload)] @ payload
                 @ replicate (8 - length payload) 0
           \<and> (\<exists>m. decode_message w = Inr m
                  \<and> arbitration_id m = arb_id
                  \<and> length (data m) = length payload
                  \<and> take (length payload) (data m) = payload)"
proof -
  let ?w = "pack_u32_le arb_id @ [of_nat (length payload)] @ payload
              @ replicate (8 - length payload) 0"
  have enc: "encode_message (Message arb_id payload) = Inr ?w"
    using assms encode_message_layout [of "Message arb_id payload"]
    by (simp add: Message_def)
  have len: "length ?w = 13"
    using assms by (simp add: length_pack_u32_le)
  have dec: "decode_message ?w = Inr (Message arb_id payload)"
    using assms by (rule decode_layout)
  show ?thesis
    using enc len dec by (simp add: Message_def)
qed

theorem codec_round_trip_witness:
  "(0x7E8 :: nat) < 2 ^ 32 \<and> length [0x04, 0x41, 0x0C, 0x1A, 0xF8 :: byte] \<le> 8
   \<and> (\<exists>w. encode_message (Message 0x7E8 [0x04, 0x41, 0x0C, 0x1A, 0xF8]) = Inr w
          \<and> length w = 13
          \<and> (\<exists>m. decode_message w = Inr m
                 \<and> arbitration_id m = 0x7E8
                 \<and> length (data m) = 5
                 \<and> take 5 (data m) = [0x04, 0x41, 0x0C, 0x1A, 0xF8]))"
proof -
  have h1: "(0x7E8 :: nat) < 2 ^ 32" by simp
  have h2: "length [0x04, 0x41, 0x0C, 0x1A, 0xF8 :: byte] \<le> 8" by simp
  from codec_round_trip [OF h1 h2] show ?thesis by auto
qed

section \<open>Properties of the ECU services\<close>

lemma pad_zeros_eq: "pad_zeros bs = bs @ replicate (8 - length bs) 0"
proof (induction bs rule: pad_zeros.induct)
  case (1 dtc_data)
  show ?case
  proof (cases "length dtc_data < 8")
    case True
    then have "pad_zeros dtc_data = pad_zeros (dtc_data @ [0])"
      by (subst pad_zeros.simps) simp
    also have "\<dots> = (dtc_data @ [0]) @ replicate (8 - length (dtc_data @ [0])) 0"
      using 1 True by simp
    also have "\<dots> = dtc_data @ replicate (8 - length dtc_data) 0"
      using True by (simp add: replicate_append_same Suc_diff_Suc flip: replicate_Suc)
    finally show ?thesis .
  next
    case False
    then show ?thesis by (subst pad_zeros.simps) simp
  qed
qed

lemma replicate_5_zero: "replicate 5 (0::byte) = [0, 0, 0, 0, 0]"
  by (simp add: numeral_eq_Suc)

lemma service4_eq:
  "service4 msg s =
     (Message 0x7e8 [0x01, 0x44, 0, 0, 0, 0, 0, 0],
      bus_send (Message 0x7e8 [0x01, 0x44, 0, 0, 0, 0, 0, 0]) (s\<lparr>active_dtcs := []\<rparr>))"
  by (simp add: service4_def Let_def)

lemma active_dtcs_bus_send: "active_dtcs (bus_send m s) = active_dtcs s"
  by (simp add: bus_send_def)

lemma service3_no_codes:
  "active_dtcs s = [] \<Longrightarrow> fst (service3 msg s) = Message 0x7e8 [0x01, 0x43, 0, 0, 0, 0, 0, 0]"
  by (simp add: service3_def Let_def)

text \<open>
  Claim C3 (shape of the service 3 response), evaluated on the code. With no active
  code the response payload is \<open>[0x01, 0x43, 0, 0, 0, 0, 0, 0]\<close>, as claimed. With the
  single active code \<open>(0x03, 0x00)\<close> the payload has nine bytes and starts with \<open>0x07\<close>:
  the list is filled to eight bytes before the count byte is put in front, and the count
  byte is the length of the filled list less one, not the number of meaningful bytes.
\<close>

theorem service3_response_shape:
  "fst (service3 msg (s\<lparr>active_dtcs := []\<rparr>))
     = Message 0x7e8 [0x01, 0x43, 0, 0, 0, 0, 0, 0]
   \<and> fst (service3 msg (s\<lparr>active_dtcs := [(0x03, 0x00)]\<rparr>))
     = Message 0x7e8 [0x07, 0x43, 0x03, 0x00, 0, 0, 0, 0, 0]"
  by (simp add: service3_def pad_zeros_eq Let_def Message_def replicate_5_zero)

text \<open>
  Claim C4 (length of transmitted frames), evaluated on the code. The frame broadcast
  for the service 3 response with the single active code \<open>(0x03, 0x00)\<close> has 13 bytes, so
  its payload on the wire has 8 bytes, but its length field is 9.
\<close>

theorem service3_wire_length_field:
  "encode_message (fst (service3 msg (s\<lparr>active_dtcs := [(0x03, 0x00)]\<rparr>)))
     = Inr [0xE8, 0x07, 0, 0, 9, 0x07, 0x43, 0x03, 0x00, 0, 0, 0, 0]"
  by (simp add: service3_def pad_zeros_eq encode_message_def struct_pack_def Message_def
      ljust_def pack_8s_def pack_u32_le_def Let_def replicate_5_zero)

text \<open>
  Claim C9 (clearing is idempotent). Whatever the state, service 4 run twice in a row
  gives the response payload \<open>[0x01, 0x44, 0, 0, 0, 0, 0, 0]\<close> both times and leaves no
  active code, and service 3 run next reports no code:
  \<open>[0x01, 0x43, 0, 0, 0, 0, 0, 0]\<close>.
\<close>

theorem clear_idempotent:
  "fst (service4 m1 s) = Message 0x7e8 [0x01, 0x44, 0, 0, 0, 0, 0, 0]
   \<and> fst (service4 m2 (snd (service4 m1 s))) = Message 0x7e8 [0x01, 0x44, 0, 0, 0, 0, 0, 0]
   \<and> active_dtcs (snd (service4 m1 s)) = []
   \<and> active_dtcs (snd (service4 m2 (snd (service4 m1 s)))) = []
   \<and> fst (service3 m3 (snd (service4 m2 (snd (service4 m1 s)))))
       = Message 0x7e8 [0x01, 0x43, 0, 0, 0, 0, 0, 0]"
proof -
  have a: "active_dtcs (snd (service4 m t)) = []" for m t
    by (simp add: service4_eq active_dtcs_bus_send)
  show ?thesis
    using a [of m1 s] a [of m2 "snd (service4 m1 s)"]
    by (simp add: service4_eq service3_no_codes)
qed

section \<open>Properties of the code generator\<close>

lemma choice_pool_mem: "choice DTC_POOL k \<in> set DTC_POOL"
proof -
  have "length DTC_POOL = 8" by (simp add: DTC_POOL_def)
  then have "k mod length DTC_POOL < length DTC_POOL" by simp
  then show ?thesis unfolding choice_def by (rule nth_mem)
qed

lemma set_pop_at: "set (pop_at xs i) \<subseteq> set xs"
  unfolding pop_at_def by (auto dest: in_set_takeD in_set_dropD)

lemma length_pop_at: "length (pop_at xs i) \<le> length xs"
  unfolding pop_at_def by simp

lemma distinct_pop_at: "distinct xs \<Longrightarrow> distinct (pop_at xs i)"
proof -
  assume d: "distinct xs"
  have "set (take i xs) \<inter> set (drop (Suc i) xs) = {}"
    using d by (metis append_take_drop_id distinct_append set_drop_subset_set_drop le_SucI order_refl disjoint_iff subsetD)
  then show ?thesis using d unfolding pop_at_def by simp
qed

lemma generator_tick_inv:
  assumes "length ds \<le> 5" "distinct ds" "set ds \<subseteq> set DTC_POOL"
  shows "length (generator_tick a k r i ds) \<le> 5 \<and> distinct (generator_tick a k r i ds)
     \<and> set (generator_tick a k r i ds) \<subseteq> set DTC_POOL"
proof -
  define ds1 where "ds1 = (if a then
           (if length ds < 5 then
              (let new_dtc = choice DTC_POOL k
               in if new_dtc \<notin> set ds then ds @ [new_dtc] else ds)
            else ds)
         else ds)"
  have 1: "length ds1 \<le> 5 \<and> distinct ds1 \<and> set ds1 \<subseteq> set DTC_POOL"
    using assms choice_pool_mem [of k] by (auto simp: ds1_def Let_def)
  have g: "generator_tick a k r i ds = (if ds1 \<noteq> [] \<and> r
         then pop_at ds1 (nat (randint 0 (int (length ds1) - 1) i))
         else ds1)"
    by (simp add: generator_tick_def ds1_def Let_def)
  show ?thesis
  proof (cases "ds1 \<noteq> [] \<and> r")
    case True
    define j where "j = nat (randint 0 (int (length ds1) - 1) i)"
    have "length (pop_at ds1 j) \<le> 5"
      using 1 length_pop_at [of ds1 j] by linarith
    moreover have "distinct (pop_at ds1 j)"
      using 1 by (simp add: distinct_pop_at)
    moreover have "set (pop_at ds1 j) \<subseteq> set DTC_POOL"
      using 1 set_pop_at [of ds1 j] by blast
    moreover have "generator_tick a k r i ds = pop_at ds1 j"
      unfolding g j_def by (rule if_P) (rule True)
    ultimately show ?thesis by simp
  next
    case False
    then show ?thesis using 1 by (auto simp: g)
  qed
qed

lemma zero_not_in_pool: "(0, 0) \<notin> set DTC_POOL"
  by (simp add: DTC_POOL_def)


lemma apply_event_inv:
  assumes "length (active_dtcs s) \<le> 5" "distinct (active_dtcs s)"
    "set (active_dtcs s) \<subseteq> set DTC_POOL"
  shows "length (active_dtcs (apply_event s e)) \<le> 5 \<and> distinct (active_dtcs (apply_event s e))
     \<and> set (active_dtcs (apply_event s e)) \<subseteq> set DTC_POOL"
proof (cases e)
  case (GeneratorTick a k r i)
  then show ?thesis using generator_tick_inv [OF assms, of a k r i] by simp
next
  case (ClearCodes m)
  then show ?thesis by (simp add: service4_eq active_dtcs_bus_send)
qed

lemma events_inv:
  assumes "length (active_dtcs s) \<le> 5" "distinct (active_dtcs s)"
    "set (active_dtcs s) \<subseteq> set DTC_POOL"
  shows "length (active_dtcs (foldl apply_event s evs)) \<le> 5
     \<and> distinct (active_dtcs (foldl apply_event s evs))
     \<and> set (active_dtcs (foldl apply_event s evs)) \<subseteq> set DTC_POOL"
  using assms
proof (induction evs arbitrary: s)
  case Nil
  then show ?case by simp
next
  case (Cons e evs)
  have "length (active_dtcs (apply_event s e)) \<le> 5 \<and> distinct (active_dtcs (apply_event s e))
     \<and> set (active_dtcs (apply_event s e)) \<subseteq> set DTC_POOL"
    using Cons.prems by (rule apply_event_inv)
  then show ?case using Cons.IH [of "apply_event s e"] by simp
qed

text \<open>
  Claim C8 (invariant of the active codes). After every sequence of generator ticks and
  clear operations, started with no active code, the list of active codes has at most 5
  members, has no duplicate, holds only codes of the pool, and does not hold the pair
  \<open>(0x00, 0x00)\<close>.
\<close>

theorem active_dtcs_invariant:
  "length (active_dtcs (foldl apply_event (s\<lparr>active_dtcs := []\<rparr>) evs)) \<le> 5
   \<and> distinct (active_dtcs (foldl apply_event (s\<lparr>active_dtcs := []\<rparr>) evs))
   \<and> set (active_dtcs (foldl apply_event (s\<lparr>active_dtcs := []\<rparr>) evs)) \<subseteq> set DTC_POOL
   \<and> (0x00, 0x00) \<notin> set (active_dtcs (foldl apply_event (s\<lparr>active_dtcs := []\<rparr>) evs))"
proof -
  have "length (active_dtcs (foldl apply_event (s\<lparr>active_dtcs := []\<rparr>) evs)) \<le> 5
   \<and> distinct (active_dtcs (foldl apply_event (s\<lparr>active_dtcs := []\<rparr>) evs))
   \<and> set (active_dtcs (foldl apply_event (s\<lparr>active_dtcs := []\<rparr>) evs)) \<subseteq> set DTC_POOL"
    by (rule events_inv) simp_all
  then show ?thesis using zero_not_in_pool by blast
qed

text \<open>A run of six ticks: five insertions, the last tick also popping index 2.\<close>

lemma generator_example: "active_dtcs (foldl apply_event ecu_start
   [GeneratorTick True 0 False 0, GeneratorTick True 1 False 0, GeneratorTick True 2 False 0,
    GeneratorTick True 3 False 0, GeneratorTick True 4 False 0, GeneratorTick True 5 True 7])
   = [(0x01, 0x33), (0x01, 0x71), (0x03, 0x00), (0x03, 0x01)]"
  by (simp add: ecu_start_def generator_tick_def choice_def DTC_POOL_def randint_def pop_at_def Let_def)

section \<open>Properties of the receive loops\<close>

lemma decode_rpm_request: "decode_message [0xDF, 0x07, 0, 0, 8, 2, 1, 0x0C, 0, 0, 0, 0, 0]
  = Inr (Message 0x7DF [0x02, 0x01, 0x0C, 0, 0, 0, 0, 0])"
  by (simp add: decode_message_def struct_unpack_def unpack_u32_le_def Message_def)

lemma empty_reads_receive_from_client:
  "receive_from_client (replicate n (Chunk [])) client s = (True, s)"
  by (induction n) simp_all

lemma empty_reads_tcp_receiver:
  "tcp_receiver (replicate n (Chunk [])) queue = (True, queue)"
  by (induction n) simp_all

text \<open>
  Claim C5 (short reads), evaluated on the code. A client socket delivers a chunk of 3
  bytes and then a whole frame: the short read is not taken for a frame, but the receive
  loop is still running afterwards, the client is still registered, and the frame that
  followed has been decoded and queued. And after any number of empty reads, which is
  what a closed peer delivers, both receive loops are still running, with the state as it
  was: the client is never removed from the registry.
\<close>

theorem short_read_keeps_connection:
  "receive_from_client
     [Chunk [0x01, 0x02, 0x03], Chunk [0xDF, 0x07, 0, 0, 8, 2, 1, 0x0C, 0, 0, 0, 0, 0]]
     7 (ecu_start\<lparr>client_sockets := [7]\<rparr>)
   = (True, ecu_start\<lparr>client_sockets := [7],
              incoming_requests := [Message 0x7DF [0x02, 0x01, 0x0C, 0, 0, 0, 0, 0]]\<rparr>)
   \<and> receive_from_client (replicate n (Chunk [])) client s = (True, s)
   \<and> tcp_receiver (replicate n (Chunk [])) queue = (True, queue)"
  by (simp add: decode_rpm_request ecu_start_def empty_reads_receive_from_client
      empty_reads_tcp_receiver)

section \<open>Properties of the reader\<close>

lemma wait_response_trace:
  "wait_response arrivals queue = (res, queue') \<Longrightarrow>
   \<exists>dropped k. k \<le> length arrivals
     \<and> queue @ concat (take k arrivals) = dropped @ (case res of None \<Rightarrow> [] | Some m \<Rightarrow> [m]) @ queue'
     \<and> (\<forall>x \<in> set dropped. arbitration_id x \<noteq> RESPONSE_ID)
     \<and> length dropped \<le> k
     \<and> (case res of None \<Rightarrow> k = length arrivals | Some m \<Rightarrow> arbitration_id m = RESPONSE_ID)"
proof (induction arrivals arbitrary: queue)
  case Nil
  then show ?case by auto
next
  case (Cons arrived later)
  show ?case
  proof (cases "queue @ arrived")
    case Nil
    with Cons.prems have w: "wait_response later [] = (res, queue')" by simp
    from Cons.IH [OF w] obtain dropped k where
      k: "k \<le> length later"
      and eq: "[] @ concat (take k later) = dropped @ (case res of None \<Rightarrow> [] | Some m \<Rightarrow> [m]) @ queue'"
      and dr: "\<forall>x \<in> set dropped. arbitration_id x \<noteq> RESPONSE_ID"
      and ln: "length dropped \<le> k"
      and rs: "case res of None \<Rightarrow> k = length later | Some m \<Rightarrow> arbitration_id m = RESPONSE_ID"
      by blast
    have "queue @ concat (take (Suc k) (arrived # later))
        = dropped @ (case res of None \<Rightarrow> [] | Some m \<Rightarrow> [m]) @ queue'"
      using eq Nil by simp
    moreover have "case res of None \<Rightarrow> Suc k = length (arrived # later) | Some m \<Rightarrow> arbitration_id m = RESPONSE_ID"
      using rs by (simp split: option.splits)
    ultimately show ?thesis
      using k dr ln by (intro exI [of _ dropped] exI [of _ "Suc k"]) simp
  next
    case (Cons msg rest)
    show ?thesis
    proof (cases "arbitration_id msg = RESPONSE_ID")
      case True
      with Cons Cons.prems have "res = Some msg" "queue' = rest" by simp_all
      then show ?thesis
        using Cons True by (intro exI [of _ "[]"] exI [of _ "Suc 0"]) simp
    next
      case False
      with Cons Cons.prems have w: "wait_response later rest = (res, queue')" by simp
      from Cons.IH [OF w] obtain dropped k where
        k: "k \<le> length later"
        and eq: "rest @ concat (take k later) = dropped @ (case res of None \<Rightarrow> [] | Some m \<Rightarrow> [m]) @ queue'"
        and dr: "\<forall>x \<in> set dropped. arbitration_id x \<noteq> RESPONSE_ID"
        and ln: "length dropped \<le> k"
        and rs: "case res of None \<Rightarrow> k = length later | Some m \<Rightarrow> arbitration_id m = RESPONSE_ID"
        by blast
      have "queue @ concat (take (Suc k) (arrived # later))
          = (msg # dropped) @ (case res of None \<Rightarrow> [] | Some m \<Rightarrow> [m]) @ queue'"
        using eq Cons by (simp flip: append_assoc)
      moreover have "case res of None \<Rightarrow> Suc k = length (arrived # later) | Some m \<Rightarrow> arbitration_id m = RESPONSE_ID"
        using rs by (simp split: option.splits)
      ultimately show ?thesis
        using k dr ln False by (intro exI [of _ "msg # dropped"] exI [of _ "Suc k"]) simp
    qed
  qed
qed

lemma read_rpm_some:
  assumes "read_rpm ok arrivals r = Inr (Some v, r')"
  shows "\<exists>m. wait_response arrivals (response_queue r) = (Some m, response_queue r')
     \<and> data_at m 1 = Inr 0x41 \<and> data_at m 2 = Inr 0x0C"
  using assms
  by (auto simp: read_rpm_def send_request_def Let_def
      split: sum.splits option.splits prod.splits if_splits)

text \<open>
  Claim C2 (correlation of responses), as stated, fails on the code. A queued frame
  with another identifier is popped and lost while waiting; and the RPM query pops a
  queued speed response (byte 2 is \<open>0x0D\<close>, not \<open>0x0C\<close>), answers \<open>None\<close> and leaves the
  queue empty.
\<close>

theorem wait_response_counterexample:
  "wait_response [[]] [Message 0x123 [0x01, 0x02, 0x03]] = (None, [])
   \<and> read_rpm True [[]] \<lparr>response_queue = [Message 0x7E8 [0x03, 0x41, 0x0D, 0x32]], tcp_out = []\<rparr>
     = Inr (None, \<lparr>response_queue = [],
                   tcp_out = [[0xDF, 0x07, 0, 0, 8, 0x02, 0x01, 0x0C, 0, 0, 0, 0, 0]]\<rparr>)"
  by (simp add: read_rpm_def send_request_def Message_def RESPONSE_ID_def REQUEST_ID_def
      SERVICE_CURRENT_DATA_def encode_message_def struct_pack_def ljust_def pack_8s_def
      pack_u32_le_def data_at_def)

lemma wait_response_none:
  "\<forall>m \<in> set queue \<union> set (concat arrivals). arbitration_id m \<noteq> RESPONSE_ID
   \<Longrightarrow> fst (wait_response arrivals queue) = None"
proof (induction arrivals arbitrary: queue)
  case Nil
  then show ?case by simp
next
  case (Cons arrived later)
  show ?case
  proof (cases "queue @ arrived")
    case Nil
    then show ?thesis using Cons.IH [of "[]"] Cons.prems by simp
  next
    case (Cons msg rest)
    then have sub: "set (msg # rest) = set queue \<union> set arrived" by (metis set_append)
    then have "arbitration_id msg \<noteq> RESPONSE_ID" using Cons.prems by auto
    moreover have "\<forall>m \<in> set rest \<union> set (concat later). arbitration_id m \<noteq> RESPONSE_ID"
      using Cons.prems sub by auto
    ultimately show ?thesis using Cons Cons.IH [of rest] by simp
  qed
qed

lemma send_request_ok:
  "send_request ok service pid r =
     Inr (if ok then r\<lparr>tcp_out := tcp_out r @
            [[0xDF, 0x07, 0, 0, 8, 0x02, service, pid, 0, 0, 0, 0, 0]]\<rparr> else r)"
  by (simp add: send_request_def Message_def REQUEST_ID_def encode_message_def struct_pack_def
      ljust_def pack_8s_def pack_u32_le_def)

lemma randint_range: "lo \<le> hi \<Longrightarrow> lo \<le> randint lo hi seed \<and> randint lo hi seed \<le> hi"
proof -
  assume h: "lo \<le> hi"
  then have "0 < nat (hi - lo + 1)" by simp
  then have "seed mod nat (hi - lo + 1) < nat (hi - lo + 1)" by (rule mod_less_divisor)
  then show ?thesis using h unfolding randint_def by linarith
qed

lemma randint_onto: "lo \<le> v \<Longrightarrow> v \<le> hi \<Longrightarrow> randint lo hi (nat (v - lo)) = v"
  by (simp add: randint_def)

lemma unat_byte_of_int: "0 \<le> i \<Longrightarrow> i < 256 \<Longrightarrow> unat (of_int i :: byte) = nat i"
proof -
  assume a: "0 \<le> i" "i < 256"
  then have "(of_int i :: byte) = of_nat (nat i)" by simp
  moreover have "nat i < 256" using a by simp
  ultimately show ?thesis by (simp add: unat_of_nat)
qed

lemma wait_response_queued:
  "wait_response (replicate n []) queue =
     (if length (takeWhile (\<lambda>m. arbitration_id m \<noteq> RESPONSE_ID) queue) < n
         \<and> dropWhile (\<lambda>m. arbitration_id m \<noteq> RESPONSE_ID) queue \<noteq> []
      then (Some (hd (dropWhile (\<lambda>m. arbitration_id m \<noteq> RESPONSE_ID) queue)),
            tl (dropWhile (\<lambda>m. arbitration_id m \<noteq> RESPONSE_ID) queue))
      else (None, drop n queue))"
proof (induction n arbitrary: queue)
  case 0
  show ?case by simp
next
  case (Suc n)
  show ?case
  proof (cases queue)
    case Nil
    then show ?thesis using Suc.IH [of "[]"] by simp
  next
    case (Cons m rest)
    show ?thesis
    proof (cases "arbitration_id m = RESPONSE_ID")
      case True
      then show ?thesis using Cons by simp
    next
      case False
      then show ?thesis using Cons Suc.IH [of rest] by simp
    qed
  qed
qed

lemma wait_response_arrivals_at_tail:
  "wait_response (arrived # later) queue = wait_response ([] # later) (queue @ arrived)"
  by simp

lemma read_rpm_after_wait:
  "read_rpm ok arrivals r =
     (case wait_response arrivals (response_queue r) of
        (res, queue') \<Rightarrow>
          (let r' = (if ok
                     then r\<lparr>tcp_out := tcp_out r @
                            [[0xDF, 0x07, 0, 0, 8, 0x02, 0x01, 0x0C, 0, 0, 0, 0, 0]]\<rparr>
                     else r)\<lparr>response_queue := queue'\<rparr>
           in case res of
                None \<Rightarrow> Inr (None, r')
              | Some m \<Rightarrow>
                  if length (data m) < 2 then Inl IndexError
                  else if data m ! 1 \<noteq> 0x41 then Inr (None, r')
                  else if length (data m) < 3 then Inl IndexError
                  else if data m ! 2 \<noteq> 0x0C then Inr (None, r')
                  else if length (data m) < 5 then Inl IndexError
                  else Inr (Some (of_nat ((unat (data m ! 3) * 256) + unat (data m ! 4)) / 4), r')))"
  by (cases ok)
    (auto simp: read_rpm_def send_request_ok SERVICE_CURRENT_DATA_def data_at_def Let_def
      split: prod.splits option.splits)

lemma wait_response_append:
  "wait_response (first @ later) queue =
     (case wait_response first queue of
        (None, queue') \<Rightarrow> wait_response later queue'
      | (Some m, queue') \<Rightarrow> (Some m, queue'))"
proof (induction first arbitrary: queue)
  case Nil
  show ?case by simp
next
  case (Cons arrived first)
  show ?case
  proof (cases "queue @ arrived")
    case Nil
    then show ?thesis using Cons.IH [of "[]"] by simp
  next
    case (Cons m rest)
    then show ?thesis using Cons.IH [of rest] by simp
  qed
qed

text \<open>
  Claim C2 as amended. \<open>wait_response\<close> takes the frame at the head of the queue off at
  every poll that finds the queue non-empty; frames that arrive are appended at the tail
  before the poll. With \<open>n\<close> polls and no arrival meanwhile, the queued frames ahead of
  the first frame with identifier \<open>0x7E8\<close> are taken off one per poll and are lost: if
  there are fewer than \<open>n\<close> of them and a frame with identifier \<open>0x7E8\<close> is queued, that
  frame is removed and returned, whatever its bytes 1 and 2, and the frames behind it stay
  queued in their order; otherwise the result is \<open>None\<close> and the first \<open>n\<close> frames are
  gone. A wait is a shorter wait followed, when that one gave \<open>None\<close>, by a wait over
  the remaining polls on the queue it left. With arrivals, the frames taken off are a
  prefix of the queue followed by the arrivals, and all of them but the returned one
  carry another identifier. Bytes 1 and 2
  are compared afterwards by the query: \<open>read_rpm\<close> leaves the queue as
  \<open>wait_response\<close> left it, whether the frame passes the comparison or not, and gives
  a value only when the frame has \<open>0x41\<close> at byte 1 and \<open>0x0C\<close> at byte 2.
\<close>

theorem wait_response_fifo:
  "(wait_response arrivals queue = (res, queue') \<longrightarrow>
      (\<exists>dropped k. k \<le> length arrivals
         \<and> queue @ concat (take k arrivals)
             = dropped @ (case res of None \<Rightarrow> [] | Some m \<Rightarrow> [m]) @ queue'
         \<and> (\<forall>x \<in> set dropped. arbitration_id x \<noteq> RESPONSE_ID)
         \<and> length dropped \<le> k
         \<and> (case res of None \<Rightarrow> k = length arrivals
              | Some m \<Rightarrow> arbitration_id m = RESPONSE_ID)))
   \<and> (read_rpm ok arrivals r = Inr (Some v, r') \<longrightarrow>
      (\<exists>m. wait_response arrivals (response_queue r) = (Some m, response_queue r')
         \<and> data_at m 1 = Inr 0x41 \<and> data_at m 2 = Inr 0x0C))
   \<and> wait_response (replicate n []) queue =
        (if length (takeWhile (\<lambda>m. arbitration_id m \<noteq> RESPONSE_ID) queue) < n
            \<and> dropWhile (\<lambda>m. arbitration_id m \<noteq> RESPONSE_ID) queue \<noteq> []
         then (Some (hd (dropWhile (\<lambda>m. arbitration_id m \<noteq> RESPONSE_ID) queue)),
               tl (dropWhile (\<lambda>m. arbitration_id m \<noteq> RESPONSE_ID) queue))
         else (None, drop n queue))
   \<and> wait_response (arrived # later) queue = wait_response ([] # later) (queue @ arrived)
   \<and> wait_response (first @ later) queue =
        (case wait_response first queue of
           (None, queue') \<Rightarrow> wait_response later queue'
         | (Some m, queue') \<Rightarrow> (Some m, queue'))
   \<and> read_rpm ok arrivals r =
        (case wait_response arrivals (response_queue r) of
           (res, queue') \<Rightarrow>
             (let r' = (if ok
                        then r\<lparr>tcp_out := tcp_out r @
                               [[0xDF, 0x07, 0, 0, 8, 0x02, 0x01, 0x0C, 0, 0, 0, 0, 0]]\<rparr>
                        else r)\<lparr>response_queue := queue'\<rparr>
              in case res of
                   None \<Rightarrow> Inr (None, r')
                 | Some m \<Rightarrow>
                     if length (data m) < 2 then Inl IndexError
                     else if data m ! 1 \<noteq> 0x41 then Inr (None, r')
                     else if length (data m) < 3 then Inl IndexError
                     else if data m ! 2 \<noteq> 0x0C then Inr (None, r')
                     else if length (data m) < 5 then Inl IndexError
                     else Inr (Some (of_nat ((unat (data m ! 3) * 256) + unat (data m ! 4)) / 4),
                               r')))"
proof -
  note 1 = wait_response_trace [of arrivals queue res queue']
  note 2 = read_rpm_some [of ok arrivals r v r']
  note 3 = wait_response_queued [of n queue]
  note 4 = wait_response_arrivals_at_tail [of arrived later queue]
  note 5 = wait_response_append [of first later queue]
  note 6 = read_rpm_after_wait [of ok arrivals r]
  show ?thesis
    apply (intro conjI impI)
         apply (erule 1)
        apply (erule 2)
       apply (rule 3)
      apply (rule 4)
     apply (rule 5)
    apply (rule 6)
    done
qed

theorem wait_response_fifo_witness:
  "wait_response [[], [Message 0x7E8 [0x04, 0x41, 0x0C, 0x1A, 0xF8], Message 0x7E8 [0x03, 0x41, 0x0D, 0x32]]]
       [Message 0x123 [0x01, 0x02, 0x03]]
     = (Some (Message 0x7E8 [0x04, 0x41, 0x0C, 0x1A, 0xF8]), [Message 0x7E8 [0x03, 0x41, 0x0D, 0x32]])
   \<and> (\<exists>dropped k. k \<le> 2
         \<and> [Message 0x123 [0x01, 0x02, 0x03]]
             @ concat (take k [[], [Message 0x7E8 [0x04, 0x41, 0x0C, 0x1A, 0xF8],
                                    Message 0x7E8 [0x03, 0x41, 0x0D, 0x32]]])
             = dropped @ [Message 0x7E8 [0x04, 0x41, 0x0C, 0x1A, 0xF8]]
                 @ [Message 0x7E8 [0x03, 0x41, 0x0D, 0x32]]
         \<and> (\<forall>x \<in> set dropped. arbitration_id x \<noteq> RESPONSE_ID))
   \<and> read_rpm True [[Message 0x7E8 [0x04, 0x41, 0x0C, 0x1A, 0xF8]]]
         \<lparr>response_queue = [], tcp_out = []\<rparr>
     = Inr (Some 1726, \<lparr>response_queue = [],
                        tcp_out = [[0xDF, 0x07, 0, 0, 8, 0x02, 0x01, 0x0C, 0, 0, 0, 0, 0]]\<rparr>)
   \<and> (\<exists>m. wait_response [[Message 0x7E8 [0x04, 0x41, 0x0C, 0x1A, 0xF8]]] [] = (Some m, [])
         \<and> data_at m 1 = Inr 0x41 \<and> data_at m 2 = Inr 0x0C)"
proof -
  let ?rpm = "Message 0x7E8 [0x04, 0x41, 0x0C, 0x1A, 0xF8]"
  let ?speed = "Message 0x7E8 [0x03, 0x41, 0x0D, 0x32]"
  let ?other = "Message 0x123 [0x01, 0x02, 0x03]"
  let ?r = "\<lparr>response_queue = [], tcp_out = []\<rparr>"
  let ?r' = "\<lparr>response_queue = [],
              tcp_out = [[0xDF, 0x07, 0, 0, 8, 0x02, 0x01, 0x0C, 0, 0, 0, 0, 0 :: byte]]\<rparr>"
  have h1: "wait_response [[], [?rpm, ?speed]] [?other] = (Some ?rpm, [?speed])"
    by (simp add: Message_def RESPONSE_ID_def)
  have h2: "read_rpm True [[?rpm]] ?r = Inr (Some 1726, ?r')"
    by (simp add: read_rpm_def send_request_ok SERVICE_CURRENT_DATA_def Message_def
        RESPONSE_ID_def data_at_def)
  have a: "\<exists>dropped k. k \<le> 2
         \<and> [?other] @ concat (take k [[], [?rpm, ?speed]]) = dropped @ [?rpm] @ [?speed]
         \<and> (\<forall>x \<in> set dropped. arbitration_id x \<noteq> RESPONSE_ID)"
  proof -
    from wait_response_fifo [THEN conjunct1, THEN mp, OF h1]
    obtain dropped k where "k \<le> length [[], [?rpm, ?speed]]"
      and "[?other] @ concat (take k [[], [?rpm, ?speed]]) = dropped @ [?rpm] @ [?speed]"
      and "\<forall>x \<in> set dropped. arbitration_id x \<noteq> RESPONSE_ID"
      by auto
    then show ?thesis
      by (intro exI [of _ dropped] exI [of _ k]) simp
  qed
  have b: "\<exists>m. wait_response [[?rpm]] [] = (Some m, [])
         \<and> data_at m 1 = Inr 0x41 \<and> data_at m 2 = Inr 0x0C"
    using wait_response_fifo [THEN conjunct2, THEN conjunct1, THEN mp, OF h2] by simp
  from h1 a h2 b show ?thesis by blast
qed

section \<open>Properties of service 1 and its queries\<close>


lemma decode_request:
  "decode_message [0xDF, 0x07, 0, 0, 8, 0x02, service, pid, 0, 0, 0, 0, 0]
     = Inr (Message 0x7DF [0x02, service, pid, 0, 0, 0, 0, 0])"
  by (simp add: decode_message_def struct_unpack_def unpack_u32_le_def Message_def)






lemma service1_rpm:
  "data_at msg 2 = Inr 0x0C \<Longrightarrow>
   service1 r1 r2 msg s =
     Inr (Some (Message 0x7e8 [0x04, 0x41, 0x0C, of_int (randint 18 70 r1), of_int (randint 0 255 r2)]),
          bus_send (Message 0x7e8 [0x04, 0x41, 0x0C, of_int (randint 18 70 r1),
                                   of_int (randint 0 255 r2)]) s)"
  by (simp add: service1_def service1_response_def)

lemma read_rpm_decodes:
  assumes "response_queue r = []"
  shows "\<exists>r'. read_rpm ok ([Message 0x7e8 [0x04, 0x41, 0x0C, A, B]] # later) r
           = Inr (Some (of_nat ((unat A * 256) + unat B) / 4), r')"
  using assms
  by (cases ok)
    (simp_all add: read_rpm_def send_request_ok Message_def RESPONSE_ID_def data_at_def)

lemma rpm_frame_over_the_wire:
  "\<exists>w. encode_message (Message 0x7e8 [0x04, 0x41, 0x0C, A, B]) = Inr w
       \<and> tcp_receiver [Chunk w] [] = (True, [Message 0x7e8 [0x04, 0x41, 0x0C, A, B]])"
proof -
  let ?bs = "[0x04, 0x41, 0x0C, A, B]"
  let ?w = "pack_u32_le 0x7e8 @ [of_nat (length ?bs)] @ ?bs @ replicate (8 - length ?bs) 0"
  have e: "encode_message (Message 0x7e8 ?bs) = Inr ?w"
    using encode_message_layout [of "Message 0x7e8 ?bs"] by (simp add: Message_def)
  have d: "decode_message ?w = Inr (Message 0x7e8 ?bs)"
    by (rule decode_layout) simp_all
  have l: "length ?w = 13" by (simp add: length_pack_u32_le)
  have "tcp_receiver [Chunk ?w] [] = (True, [Message 0x7e8 ?bs])"
    by (simp only: tcp_receiver.simps l d) simp
  with e show ?thesis by blast
qed

text \<open>
  For contrast, the same path with the supported PID \<open>0x0C\<close>: the wait returns the
  response of the ECU.
\<close>

lemma query_round_rpm_answered:
  assumes "incoming_requests s = []" and "response_queue r = []"
  shows "\<exists>A B r' s'. query_round client r1 r2 polls SERVICE_CURRENT_DATA 0x0C r s
     = Inr (Some (Message 0x7e8 [0x04, 0x41, 0x0C, A, B]), r', s')"
proof -
  let ?msg = "Message 0x7DF [0x02, 0x01, 0x0C, 0, 0, 0, 0, 0]"
  let ?r' = "r\<lparr>tcp_out := tcp_out r @ [[0xDF, 0x07, 0, 0, 8, 0x02, 0x01, 0x0C, 0, 0, 0, 0, 0]]\<rparr>"
  define M where "M = Message 0x7e8 [0x04, 0x41, 0x0C, of_int (randint 18 70 r1),
    of_int (randint 0 255 r2)]"
  obtain w where w: "encode_message M = Inr w" and tr: "tcp_receiver [Chunk w] [] = (True, [M])"
    unfolding M_def using rpm_frame_over_the_wire by blast
  define s2 where "s2 = (bus_send M s)\<lparr>client_sockets := filter (\<lambda>c. True) (client_sockets (bus_send M s))\<rparr>"
  have sr: "send_request True SERVICE_CURRENT_DATA 0x0C r = Inr ?r'"
    by (simp add: send_request_ok SERVICE_CURRENT_DATA_def)
  have s0: "s\<lparr>incoming_requests := []\<rparr> = s" using assms(1) by simp
  have rc: "snd (receive_from_client [Chunk (last (tcp_out ?r'))] client s)
      = s\<lparr>incoming_requests := [?msg]\<rparr>"
    using assms(1) by (simp add: decode_request)
  have d2: "data_at ?msg 2 = Inr 0x0C" by (simp add: data_at_def Message_def)
  have s1: "service1 r1 r2 ?msg s = Inr (Some M, bus_send M s)"
    unfolding M_def by (rule service1_rpm [OF d2])
  have rs: "respond (\<lambda>c. True) (Some M) (bus_send M s) = Inr (Some w, s2)"
    by (simp add: respond_def broadcast_can_message_def w s2_def)
  have pr: "process_request (\<lambda>c. True) r1 r2 ?msg s = Inr (Some w, s2)"
    using s1 rs by (simp add: process_request_def data_at_def Message_def)
  have sl: "service_loop_step (\<lambda>c. True) r1 r2 (s\<lparr>incoming_requests := [?msg]\<rparr>)
      = Inr (Some w, s2)"
    using pr s0 by (simp add: service_loop_step_def)
  have wr: "wait_response ([M] # replicate polls []) (response_queue ?r') = (Some M, [])"
    using assms(2) by (simp add: M_def Message_def RESPONSE_ID_def)
  have "query_round client r1 r2 polls SERVICE_CURRENT_DATA 0x0C r s
      = Inr (Some M, ?r'\<lparr>response_queue := []\<rparr>, s2)"
    unfolding query_round_def sr Let_def
    by (simp only: sum.case rc sl prod.case option.case tr snd_conv wr)
  then show ?thesis unfolding M_def by blast
qed

text \<open>
  Claim C7 (RPM generation and decoding agree). Every response of service 1 to PID
  \<open>0x0C\<close> has the payload \<open>[0x04, 0x41, 0x0C, A, B]\<close> with \<open>A\<close> between 18 and 70 and
  \<open>B\<close> between 0 and 255, and every pair of that range is the response of some draw.
  Every frame of this shape reaches the reader's queue unchanged over the wire, and the
  RPM query that receives it answers \<open>((A * 256) + B) / 4\<close>.
\<close>

theorem rpm_generation_decoding:
  assumes "data_at msg 2 = Inr 0x0C"
  shows "(\<exists>A B. service1 r1 r2 msg s =
              Inr (Some (Message 0x7e8 [0x04, 0x41, 0x0C, A, B]),
                   bus_send (Message 0x7e8 [0x04, 0x41, 0x0C, A, B]) s)
            \<and> 18 \<le> unat A \<and> unat A \<le> 70 \<and> unat B \<le> 255)
     \<and> (\<forall>a b. 18 \<le> a \<and> a \<le> 70 \<and> b \<le> 255 \<longrightarrow>
           (\<exists>k1 k2. service1 k1 k2 msg s =
              Inr (Some (Message 0x7e8 [0x04, 0x41, 0x0C, of_nat a, of_nat b]),
                   bus_send (Message 0x7e8 [0x04, 0x41, 0x0C, of_nat a, of_nat b]) s)))
     \<and> (\<forall>A B. \<exists>w. encode_message (Message 0x7e8 [0x04, 0x41, 0x0C, A, B]) = Inr w
           \<and> tcp_receiver [Chunk w] [] = (True, [Message 0x7e8 [0x04, 0x41, 0x0C, A, B]]))
     \<and> (\<forall>A B ok later r. response_queue r = [] \<longrightarrow>
           (\<exists>r'. read_rpm ok ([Message 0x7e8 [0x04, 0x41, 0x0C, A, B]] # later) r
                  = Inr (Some (of_nat ((unat A * 256) + unat B) / 4), r')))"
proof -
  let ?A = "of_int (randint 18 70 r1) :: byte"
  let ?B = "of_int (randint 0 255 r2) :: byte"
  have ra: "18 \<le> randint 18 70 r1 \<and> randint 18 70 r1 \<le> 70" by (rule randint_range) simp
  have rb: "0 \<le> randint 0 255 r2 \<and> randint 0 255 r2 \<le> 255" by (rule randint_range) simp
  have ua: "unat ?A = nat (randint 18 70 r1)" using ra by (intro unat_byte_of_int) simp_all
  have ub: "unat ?B = nat (randint 0 255 r2)" using rb by (intro unat_byte_of_int) simp_all
  have bounds: "18 \<le> unat ?A \<and> unat ?A \<le> 70 \<and> unat ?B \<le> 255"
    unfolding ua ub using ra rb by linarith
  have 1: "\<exists>A B. service1 r1 r2 msg s =
              Inr (Some (Message 0x7e8 [0x04, 0x41, 0x0C, A, B]),
                   bus_send (Message 0x7e8 [0x04, 0x41, 0x0C, A, B]) s)
            \<and> 18 \<le> unat A \<and> unat A \<le> 70 \<and> unat B \<le> 255"
  proof -
    have "service1 r1 r2 msg s =
              Inr (Some (Message 0x7e8 [0x04, 0x41, 0x0C, ?A, ?B]),
                   bus_send (Message 0x7e8 [0x04, 0x41, 0x0C, ?A, ?B]) s)
            \<and> 18 \<le> unat ?A \<and> unat ?A \<le> 70 \<and> unat ?B \<le> 255"
      using service1_rpm [OF assms, of r1 r2 s] bounds by simp
    then show ?thesis by blast
  qed
  have 2: "\<exists>k1 k2. service1 k1 k2 msg s =
              Inr (Some (Message 0x7e8 [0x04, 0x41, 0x0C, of_nat a, of_nat b]),
                   bus_send (Message 0x7e8 [0x04, 0x41, 0x0C, of_nat a, of_nat b]) s)"
    if "18 \<le> a \<and> a \<le> 70 \<and> b \<le> 255" for a b :: nat
  proof -
    have "randint 18 70 (nat (int a - 18)) = int a" using that by (intro randint_onto) simp_all
    moreover have "randint 0 255 (nat (int b - 0)) = int b"
      using that by (intro randint_onto) simp_all
    ultimately have "service1 (nat (int a - 18)) (nat (int b - 0)) msg s =
              Inr (Some (Message 0x7e8 [0x04, 0x41, 0x0C, of_nat a, of_nat b]),
                   bus_send (Message 0x7e8 [0x04, 0x41, 0x0C, of_nat a, of_nat b]) s)"
      using service1_rpm [OF assms, of "nat (int a - 18)" "nat (int b - 0)" s]
      by (simp only: of_int_of_nat_eq)
    then show ?thesis by blast
  qed
  show ?thesis
    using 1 2 rpm_frame_over_the_wire read_rpm_decodes by blast
qed

theorem rpm_generation_decoding_witness:
  "data_at (Message 0x7DF [0x02, 0x01, 0x0C, 0, 0, 0, 0, 0]) 2 = Inr 0x0C
   \<and> (\<exists>A B. service1 8 248 (Message 0x7DF [0x02, 0x01, 0x0C, 0, 0, 0, 0, 0]) ecu_start =
              Inr (Some (Message 0x7e8 [0x04, 0x41, 0x0C, A, B]),
                   bus_send (Message 0x7e8 [0x04, 0x41, 0x0C, A, B]) ecu_start)
            \<and> 18 \<le> unat A \<and> unat A \<le> 70 \<and> unat B \<le> 255)"
proof -
  have h: "data_at (Message 0x7DF [0x02, 0x01, 0x0C, 0, 0, 0, 0, 0]) 2 = Inr 0x0C"
    by (simp add: Message_def data_at_def)
  from rpm_generation_decoding [OF h, of 8 248 ecu_start, THEN conjunct1] h
  show ?thesis by blast
qed

section \<open>Properties of the code query\<close>

lemma range_from2_step2_7: "range_from2_step2 7 = [2, 4, 6]"
  by code_simp

lemma range_from2_step2_offsets:
  assumes "stop \<le> 7"
  shows "set (range_from2_step2 stop) \<subseteq> {2, 4, 6}"
proof
  fix i assume "i \<in> set (range_from2_step2 stop)"
  then have "even i" and "2 \<le> i" and "i < 7"
    using assms by (auto simp: range_from2_step2_def)
  then show "i \<in> {2, 4, 6}" by (auto elim!: evenE)
qed

lemma parse_dtcs_8:
  "parse_dtcs [b0, b1, h1, l1, h2, l2, h3, l3] =
     map (\<lambda>(h, l). format_dtc h l) (filter (\<lambda>(h, l). h \<noteq> 0x00) [(h1, l1), (h2, l2), (h3, l3)])"
  by (simp add: parse_dtcs_def range_from2_step2_7)

lemma format_dtc_P0300: "format_dtc 0x03 0x00 = ''P0300''"
  by (simp add: format_dtc_def hex02X_def hex_digit_def)

lemma replicate_numeral: "replicate (numeral k) x = x # replicate (pred_numeral k) x"
  by (simp add: numeral_eq_Suc)

lemma frame8_at_reader:
  "\<exists>w. encode_message (Message 0x7e8 [c0, c1, c2, c3, c4, c5, c6, c7]) = Inr w
       \<and> tcp_receiver [Chunk w] [] = (True, [Message 0x7e8 [c0, c1, c2, c3, c4, c5, c6, c7]])"
proof -
  let ?w = "[0xE8, 0x07, 0, 0, 8, c0, c1, c2, c3, c4, c5, c6, c7]"
  have "encode_message (Message 0x7e8 [c0, c1, c2, c3, c4, c5, c6, c7]) = Inr ?w"
    by (simp add: encode_message_def struct_pack_def Message_def ljust_def pack_8s_def
        pack_u32_le_def)
  moreover have "tcp_receiver [Chunk ?w] [] = (True, [Message 0x7e8 [c0, c1, c2, c3, c4, c5, c6, c7]])"
    by (simp add: decode_message_def struct_unpack_def unpack_u32_le_def Message_def)
  ultimately show ?thesis by blast
qed

lemma frame9_at_reader:
  "\<exists>w. encode_message (Message 0x7e8 [c0, c1, c2, c3, c4, c5, c6, c7, c8]) = Inr w
       \<and> tcp_receiver [Chunk w] [] = (True, [Message 0x7e8 [c0, c1, c2, c3, c4, c5, c6, c7]])"
proof -
  let ?w = "[0xE8, 0x07, 0, 0, 9, c0, c1, c2, c3, c4, c5, c6, c7]"
  have "encode_message (Message 0x7e8 [c0, c1, c2, c3, c4, c5, c6, c7, c8]) = Inr ?w"
    by (simp add: encode_message_def struct_pack_def Message_def ljust_def pack_8s_def
        pack_u32_le_def)
  moreover have "tcp_receiver [Chunk ?w] [] = (True, [Message 0x7e8 [c0, c1, c2, c3, c4, c5, c6, c7]])"
    by (simp add: decode_message_def struct_unpack_def unpack_u32_le_def Message_def)
  ultimately show ?thesis by blast
qed

lemma service3_cases:
  "fst (service3 msg s) =
     (case active_dtcs s of
        [] \<Rightarrow> Message 0x7e8 [0x01, 0x43, 0, 0, 0, 0, 0, 0]
      | [a] \<Rightarrow> Message 0x7e8 [0x07, 0x43, fst a, snd a, 0, 0, 0, 0, 0]
      | [a, b] \<Rightarrow> Message 0x7e8 [0x07, 0x43, fst a, snd a, fst b, snd b, 0, 0, 0]
      | a # b # c # rest \<Rightarrow>
          Message 0x7e8 [0x07, 0x43, fst a, snd a, fst b, snd b, fst c, snd c, 0])"
  by (simp add: service3_def pad_zeros_eq Let_def replicate_numeral split: list.splits)

lemma service3_frame_at_reader:
  "\<exists>w b0 h1 l1 h2 l2 h3 l3. encode_message (fst (service3 msg s)) = Inr w
       \<and> tcp_receiver [Chunk w] [] = (True, [Message 0x7e8 [b0, 0x43, h1, l1, h2, l2, h3, l3]])"
proof -
  consider "active_dtcs s = []" | a where "active_dtcs s = [a]"
    | a b where "active_dtcs s = [a, b]" | a b c rest where "active_dtcs s = a # b # c # rest"
    by (cases "active_dtcs s"; cases "tl (active_dtcs s)"; cases "tl (tl (active_dtcs s))") auto
  then show ?thesis
  proof cases
    case 1
    then have "fst (service3 msg s) = Message 0x7e8 [0x01, 0x43, 0, 0, 0, 0, 0, 0]"
      by (simp add: service3_cases)
    then show ?thesis
      using frame8_at_reader [of "0x01" "0x43" 0 0 0 0 0 0] by (simp only:) blast
  next
    case 2
    then have "fst (service3 msg s) = Message 0x7e8 [0x07, 0x43, fst a, snd a, 0, 0, 0, 0, 0]"
      by (simp add: service3_cases)
    then show ?thesis
      using frame9_at_reader [of "0x07" "0x43" "fst a" "snd a" 0 0 0 0 0] by (simp only:) blast
  next
    case 3
    then have "fst (service3 msg s)
        = Message 0x7e8 [0x07, 0x43, fst a, snd a, fst b, snd b, 0, 0, 0]"
      by (simp add: service3_cases)
    then show ?thesis
      using frame9_at_reader [of "0x07" "0x43" "fst a" "snd a" "fst b" "snd b" 0 0 0]
      by (simp only:) blast
  next
    case 4
    then have "fst (service3 msg s)
        = Message 0x7e8 [0x07, 0x43, fst a, snd a, fst b, snd b, fst c, snd c, 0]"
      by (simp add: service3_cases)
    then show ?thesis
      using frame9_at_reader [of "0x07" "0x43" "fst a" "snd a" "fst b" "snd b" "fst c" "snd c" 0]
      by (simp only:) blast
  qed
qed

lemma read_dtcs_8:
  assumes "response_queue r = []"
  shows "\<exists>r'. read_dtcs True ([Message 0x7e8 [b0, 0x43, h1, l1, h2, l2, h3, l3]] # later) r
           = Inr (map (\<lambda>(h, l). format_dtc h l)
                    (filter (\<lambda>(h, l). h \<noteq> 0x00) [(h1, l1), (h2, l2), (h3, l3)]), r')"
proof -
  have e: "\<exists>w. encode_message
      (Message REQUEST_ID [0x01, SERVICE_READ_DTCS, 0x00, 0x00, 0x00, 0x00, 0x00, 0x00]) = Inr w"
    by (simp add: encode_message_def struct_pack_def Message_def REQUEST_ID_def)
  then obtain w where w: "encode_message
      (Message REQUEST_ID [0x01, SERVICE_READ_DTCS, 0x00, 0x00, 0x00, 0x00, 0x00, 0x00]) = Inr w"
    by blast
  define M where "M = Message 0x7e8 [b0, 0x43, h1, l1, h2, l2, h3, l3]"
  have p: "parse_dtcs (data M)
      = map (\<lambda>(h, l). format_dtc h l)
          (filter (\<lambda>(h, l). h \<noteq> 0x00) [(h1, l1), (h2, l2), (h3, l3)])"
    by (simp only: M_def Message_def can_message.simps parse_dtcs_8)
  have q: "wait_response ([M] # later) [] = (Some M, [])"
    by (simp add: M_def Message_def RESPONSE_ID_def)
  have d: "data_at M 1 = Inr 0x43"
    by (simp add: M_def Message_def data_at_def)
  have rq: "response_queue (r\<lparr>tcp_out := tcp_out r @ [w]\<rparr>) = []"
    using assms by simp
  have "read_dtcs True ([M] # later) r
      = Inr (map (\<lambda>(h, l). format_dtc h l)
               (filter (\<lambda>(h, l). h \<noteq> 0x00) [(h1, l1), (h2, l2), (h3, l3)]),
             r\<lparr>tcp_out := tcp_out r @ [w], response_queue := []\<rparr>)"
    unfolding read_dtcs_def Let_def w
    by (simp only: sum.case if_False rq q prod.case option.case d if_True simp_thms p)
  then show ?thesis unfolding M_def by blast
qed

text \<open>
  Claim C10 (what the code query reports). Every service 3 response of the ECU reaches
  the reader's queue as a frame of 8 data bytes with \<open>0x43\<close> at byte 1. For every such
  frame \<open>read_dtcs\<close> reads the byte pairs at the offsets 2, 4 and 6 and reports, in that
  order, the text of exactly those pairs whose high byte is not zero, so a code with high
  byte \<open>0x00\<close> is never reported; on no frame of at most 8 bytes does the loop visit any
  other offset. The pair \<open>(0x03, 0x00)\<close> is reported as \<open>P0300\<close>.
\<close>

theorem read_dtcs_offsets:
  "(\<exists>w b0 h1 l1 h2 l2 h3 l3. encode_message (fst (service3 msg s)) = Inr w
       \<and> tcp_receiver [Chunk w] [] = (True, [Message 0x7e8 [b0, 0x43, h1, l1, h2, l2, h3, l3]]))
   \<and> (response_queue r = [] \<longrightarrow>
        (\<exists>r'. read_dtcs True ([Message 0x7e8 [c0, 0x43, x1, y1, x2, y2, x3, y3]] # later) r
           = Inr (map (\<lambda>(h, l). format_dtc h l)
                    (filter (\<lambda>(h, l). h \<noteq> 0x00) [(x1, y1), (x2, y2), (x3, y3)]), r')))
   \<and> (length d \<le> 8 \<longrightarrow> set (range_from2_step2 (int (length d) - 1)) \<subseteq> {2, 4, 6})
   \<and> format_dtc 0x03 0x00 = ''P0300''"
proof -
  have "length d \<le> 8 \<longrightarrow> set (range_from2_step2 (int (length d) - 1)) \<subseteq> {2, 4, 6}"
  proof
    assume "length d \<le> 8"
    then have "int (length d) - 1 \<le> 7" by simp
    then show "set (range_from2_step2 (int (length d) - 1)) \<subseteq> {2, 4, 6}"
      by (rule range_from2_step2_offsets)
  qed
  then show ?thesis
    using service3_frame_at_reader [of msg s] read_dtcs_8 [of r c0 x1 y1 x2 y2 x3 y3 later]
      format_dtc_P0300
    by blast
qed

theorem read_dtcs_offsets_witness:
  "response_queue \<lparr>response_queue = [], tcp_out = []\<rparr> = []
   \<and> (\<exists>r'. read_dtcs True [[Message 0x7e8 [0x07, 0x43, 0x03, 0x00, 0x00, 0x12, 0x03, 0x01]]]
               \<lparr>response_queue = [], tcp_out = []\<rparr>
           = Inr ([''P0300'', ''P0301''], r'))
   \<and> length [0x07, 0x43, 0x03, 0x00, 0x00, 0x12, 0x03, 0x01 :: byte] \<le> 8
   \<and> set (range_from2_step2 (int (length [0x07, 0x43, 0x03, 0x00, 0x00, 0x12, 0x03, 0x01 :: byte]) - 1))
       \<subseteq> {2, 4, 6}"
proof -
  let ?r = "\<lparr>response_queue = [], tcp_out = []\<rparr>"
  let ?d = "[0x07, 0x43, 0x03, 0x00, 0x00, 0x12, 0x03, 0x01 :: byte]"
  have h1: "response_queue ?r = []" by simp
  have h2: "length ?d \<le> 8" by simp
  note t = read_dtcs_offsets [of _ _ ?r "0x07" "0x03" "0x00" "0x00" "0x12" "0x03" "0x01" "[]" ?d]
  have a: "\<exists>r'. read_dtcs True [[Message 0x7e8 ?d]] ?r = Inr ([''P0300'', ''P0301''], r')"
    using t [THEN conjunct2, THEN conjunct1, THEN mp, OF h1]
    by (simp add: format_dtc_def hex02X_def hex_digit_def)
  have b: "set (range_from2_step2 (int (length ?d) - 1)) \<subseteq> {2, 4, 6}"
    using t [THEN conjunct2, THEN conjunct2, THEN conjunct1, THEN mp, OF h2] .
  from h1 a h2 b show ?thesis by blast
qed

text \<open>
  The state with the single active code \<open>(0x03, 0x00)\<close> is reached from the start by one
  tick of the generator that draws the fourth code of the pool.
\<close>

lemma generator_inserts_P0300:
  "active_dtcs (apply_event ecu_start (GeneratorTick True 3 False 0)) = [(0x03, 0x00)]"
  by (simp add: ecu_start_def generator_tick_def choice_def DTC_POOL_def Let_def)

end
